theory Spec2Isabelle
  imports Main
begin

section \<open>A private blockchain: the ledger of \<open>src/blockchain.js\<close>\<close>

text \<open>
  The class \<open>Blockchain\<close> keeps an array \<open>chain\<close> of blocks and a counter \<open>height\<close>.
  Its methods are embedded as functions that take the state and return the new one.
  Three things lie outside the file and are handled as follows.
  \<^item> \<open>SHA256(JSON.stringify(block)).toString()\<close> is the composition of two library
    functions; it is the parameter \<open>H\<close>, a function from the block (all five fields,
    as \<open>JSON.stringify\<close> sees them) to the digest text.
  \<^item> \<open>bitcoinMessage.verify\<close> is the parameter \<open>verify\<close>.
  \<^item> \<open>new Date().getTime()\<close> is a reading of the clock in milliseconds, passed as a
    natural number to each function that reads the clock.
  The class \<open>Block\<close> of \<open>block.js\<close> is not part of the sources at hand; its constructor
  and its methods \<open>validate\<close> and \<open>getBData\<close> are modelled from the specification.
  A promise that resolves is the value, a promise that rejects is \<open>Inl\<close> of the error.
  Block objects live in a store and the chain holds their addresses: \<open>_addBlock\<close>
  writes into the object it is given and pushes that same object.
\<close>

subsection \<open>Blocks\<close>

text \<open>
  The payload handed to the constructor of a block: a literal such as
  \<open>"Genesis Block"\<close>, or the object \<open>{owner: address, star}\<close> built by \<open>submitStar\<close>.
  The star is never inspected, so its type is a parameter.
\<close>

datatype 'a payload = Literal string | Claim string 'a

text \<open>\<open>data.owner\<close>: undefined on a literal.\<close>

fun owner :: "'a payload \<Rightarrow> string option" where
  "owner (Literal s) = None"
| "owner (Claim a s) = Some a"

text \<open>
  A field that holds \<open>null\<close> or a digest is a \<open>string option\<close>. The field \<open>time\<close> holds
  the string returned by \<open>timestamp()\<close>.
\<close>

record 'a block =
  hash :: "string option"
  height :: int
  body :: "'a payload"
  time :: string
  previousBlockHash :: "string option"

text \<open>
  Modelled from the spec: the constructor of \<open>Block\<close> (block.js is missing). It
  "creates a Record with height and createdAt left for the owning Ledger to assign,
  previousHash empty, hash empty, and the given payload".
\<close>

definition Block :: "'a payload \<Rightarrow> 'a block" where
  "Block data = \<lparr>hash = None, height = 0, body = data, time = [], previousBlockHash = None\<rparr>"

text \<open>
  Modelled from the spec: \<open>computeHash\<close> of \<open>Block\<close> (block.js is missing), the "digest
  over the canonical encoding of the record's current height, createdAt, previousHash, and
  payload", which "must exclude the hash field itself": the digest of the block with its
  hash slot emptied.
\<close>

definition computeHash :: "('a block \<Rightarrow> string) \<Rightarrow> 'a block \<Rightarrow> string" where
  "computeHash H b = H (b\<lparr>hash := None\<rparr>)"

text \<open>
  Modelled from the spec: \<open>validate\<close> of \<open>Block\<close> (block.js is missing). It "recomputes
  computeHash() over the record's current field values and compares against the stored
  hash. Returns true iff equal", and has no side effect.
\<close>

definition validate :: "('a block \<Rightarrow> string) \<Rightarrow> 'a block \<Rightarrow> bool" where
  "validate H b = (hash b = Some (computeHash H b))"

text \<open>
  Modelled from the spec: \<open>getBData\<close> of \<open>Block\<close> (block.js is missing), the spec's
  \<open>decodePayload\<close>, which returns the payload of the record.
\<close>

definition getBData :: "'a block \<Rightarrow> 'a payload" where
  "getBData b = body b"

subsection \<open>Numbers and strings of JavaScript\<close>

text \<open>
  A number that may be \<open>NaN\<close> is an \<open>int option\<close>, \<open>None\<close> being \<open>NaN\<close>. The numbers that
  occur are sums and differences of whole numbers of seconds; they are kept exact.
\<close>

text \<open>The decimal digit of a number below ten.\<close>

definition digit :: "nat \<Rightarrow> char" where
  "digit d = ''0123456789'' ! d"

text \<open>\<open>n.toString()\<close> for a whole number \<open>n \<ge> 0\<close>.\<close>

fun toString :: "nat \<Rightarrow> string" where
  "toString n = (if n < 10 then [digit n] else toString (n div 10) @ [digit (n mod 10)])"

declare toString.simps [simp del]

text \<open>\<open>s.slice(0, -3)\<close>: the string without its last three characters.\<close>

definition slice_0_minus3 :: "string \<Rightarrow> string" where
  "slice_0_minus3 s = take (length s - 3) s"

text \<open>
  \<open>const timestamp = () => new Date().getTime().toString().slice(0, -3)\<close>, as a function
  of the reading \<open>ms\<close> of the clock.
\<close>

definition timestamp :: "nat \<Rightarrow> string" where
  "timestamp ms = slice_0_minus3 (toString ms)"

definition isDigit :: "char \<Rightarrow> bool" where
  "isDigit c = (48 \<le> (of_char c :: nat) \<and> (of_char c :: nat) \<le> 57)"

definition digitValue :: "char \<Rightarrow> int" where
  "digitValue c = int (of_char c) - 48"

text \<open>The value of a string of decimal digits, read from the left.\<close>

definition digitsValue :: "string \<Rightarrow> int" where
  "digitsValue s = foldl (\<lambda>acc c. 10 * acc + digitValue c) 0 s"

text \<open>
  The conversion of a string to a number that the operator \<open>-\<close> applies to its left
  operand in \<open>currentTime - messageTime\<close>. The operand is always a result of
  \<open>timestamp()\<close>, a possibly empty string of decimal digits; the empty string converts
  to 0. Strings of any other form do not occur there and are given \<open>NaN\<close>.
\<close>

definition toNumber :: "string \<Rightarrow> int option" where
  "toNumber s = (if list_all isDigit s then Some (digitsValue s) else None)"

text \<open>
  White space skipped by \<open>parseInt\<close>, among the characters below 256: tab, line feed,
  vertical tab, form feed, carriage return, space and no-break space.
\<close>

definition isWhiteSpace :: "char \<Rightarrow> bool" where
  "isWhiteSpace c = ((of_char c :: nat) \<in> {9, 10, 11, 12, 13, 32, 160})"

text \<open>
  \<open>Number.parseInt(s, 10)\<close>: skip leading white space, read an optional sign, then
  the longest run of decimal digits; \<open>NaN\<close> when that run is empty.
\<close>

definition parseInt :: "string \<Rightarrow> int option" where
  "parseInt s =
    (let t = dropWhile isWhiteSpace s;
         negative = (t \<noteq> [] \<and> hd t = CHR ''-'');
         u = (if t \<noteq> [] \<and> (hd t = CHR ''-'' \<or> hd t = CHR ''+'') then tl t else t);
         z = takeWhile isDigit u
     in if z = [] then None
        else Some (if negative then - digitsValue z else digitsValue z))"

text \<open>\<open>s.split(":")\<close>: the fields between the separators; never the empty array.\<close>

fun split :: "char \<Rightarrow> string \<Rightarrow> string list" where
  "split sep [] = [[]]"
| "split sep (c # cs) =
    (if c = sep then [] # split sep cs
     else (case split sep cs of
             [] \<Rightarrow> [[c]]
           | f # fs \<Rightarrow> (c # f) # fs))"

text \<open>\<open>xs[i]\<close> for a number \<open>i\<close>: \<open>undefined\<close> (here \<open>None\<close>) outside the array.\<close>

definition at_index :: "'a list \<Rightarrow> int \<Rightarrow> 'a option" where
  "at_index xs i = (if 0 \<le> i \<and> i < int (length xs) then Some (xs ! nat i) else None)"

text \<open>
  \<open>Number.parseInt(message.split(":")[1], 10)\<close>; \<open>parseInt(undefined)\<close> is \<open>NaN\<close>.
\<close>

definition messageTime :: "string \<Rightarrow> int option" where
  "messageTime message =
    (case at_index (split CHR '':'' message) 1 of
       None \<Rightarrow> None
     | Some field \<Rightarrow> parseInt field)"

text \<open>\<open>a - b > limit\<close> on numbers: false as soon as one operand is \<open>NaN\<close>.\<close>

definition elapsed_exceeds :: "int option \<Rightarrow> int option \<Rightarrow> int \<Rightarrow> bool" where
  "elapsed_exceeds a b limit =
    (case a of
       None \<Rightarrow> False
     | Some x \<Rightarrow> (case b of None \<Rightarrow> False | Some y \<Rightarrow> x - y > limit))"

subsection \<open>The store and the ledger\<close>

definition VALIDATION_TIMEOUT_SECONDS :: int where
  "VALIDATION_TIMEOUT_SECONDS = 5 * 60"

datatype error = Error string

abbreviation ExpiredChallenge :: error where
  "ExpiredChallenge \<equiv> Error ''Star should be submitted within 5 minutes.''"

abbreviation InvalidSignature :: error where
  "InvalidSignature \<equiv> Error ''Invalid signature.''"

text \<open>
  The state: the store \<open>objects\<close> of block objects, the address of an object being its
  position in the store, and the two fields of the ledger, the array \<open>chain\<close> of
  addresses and the counter \<open>height\<close>. Two entries of the chain that hold the same
  address are the same object.
\<close>

record 'a blockchain =
  objects :: "'a block list"
  chain :: "nat list"
  height :: int

text \<open>The object at an address.\<close>

definition block_at :: "'a blockchain \<Rightarrow> nat \<Rightarrow> 'a block" where
  "block_at c r = objects c ! r"

text \<open>An assignment to fields of the object at address \<open>r\<close>.\<close>

definition assign :: "nat \<Rightarrow> ('a block \<Rightarrow> 'a block) \<Rightarrow> 'a blockchain \<Rightarrow> 'a blockchain" where
  "assign r f c = c\<lparr>objects := (objects c)[r := f (objects c ! r)]\<rparr>"

text \<open>A new object is put at the end of the store; its address is returned.\<close>

definition new_object :: "'a block \<Rightarrow> 'a blockchain \<Rightarrow> nat \<times> 'a blockchain" where
  "new_object b c = (length (objects c), c\<lparr>objects := objects c @ [b]\<rparr>)"

text \<open>The blocks of the chain, read from the store.\<close>

definition records :: "'a blockchain \<Rightarrow> 'a block list" where
  "records c = map (block_at c) (chain c)"

text \<open>
  \<open>_addBlock(block)\<close>, for the object at address \<open>block\<close>: assigns the height, the
  time and, when the chain is not empty, the hash of the last block of the chain; then
  the hash of the object as it stands; pushes the address and increments the height.
  Returns the address and the new state.
\<close>

definition addBlock ::
  "('a block \<Rightarrow> string) \<Rightarrow> nat \<Rightarrow> nat \<Rightarrow> 'a blockchain \<Rightarrow> nat \<times> 'a blockchain" where
  "addBlock H ms block c =
    (let c1 = assign block (\<lambda>b. b\<lparr>block.height := height c + 1\<rparr>) c;
         c2 = assign block (\<lambda>b. b\<lparr>time := timestamp ms\<rparr>) c1;
         c3 = (if length (chain c2) > 0
               then (let previousBlock = chain c2 ! (length (chain c2) - 1)
                     in assign block
                          (\<lambda>b. b\<lparr>previousBlockHash := hash (block_at c2 previousBlock)\<rparr>) c2)
               else c2);
         c4 = assign block (\<lambda>b. b\<lparr>hash := Some (H (block_at c3 block))\<rparr>) c3;
         c5 = c4\<lparr>chain := chain c4 @ [block]\<rparr>;
         c6 = c5\<lparr>height := height c5 + 1\<rparr>
     in (block, c6))"

text \<open>
  \<open>initializeChain()\<close>: when the height is \<open>-1\<close>, a new block with the genesis
  payload is constructed and added.
\<close>

definition initializeChain :: "('a block \<Rightarrow> string) \<Rightarrow> nat \<Rightarrow> 'a blockchain \<Rightarrow> 'a blockchain" where
  "initializeChain H ms c =
    (if height c = - 1
     then (let (block, c1) = new_object (Block (Literal ''Genesis Block'')) c
           in snd (addBlock H ms block c1))
     else c)"

text \<open>The constructor: an empty chain of height \<open>-1\<close>, then \<open>initializeChain()\<close>.\<close>

definition Blockchain :: "('a block \<Rightarrow> string) \<Rightarrow> nat \<Rightarrow> 'a blockchain" where
  "Blockchain H ms = initializeChain H ms \<lparr>objects = [], chain = [], height = - 1\<rparr>"

definition getChainHeight :: "'a blockchain \<Rightarrow> int" where
  "getChainHeight c = height c"

text \<open>
  \<open>requestMessageOwnershipVerification(address)\<close>:
  \<open>[address, timestamp(), "starRegistry"].join(":")\<close>.
\<close>

definition requestMessageOwnershipVerification :: "nat \<Rightarrow> string \<Rightarrow> string" where
  "requestMessageOwnershipVerification ms address =
    address @ '':'' @ timestamp ms @ '':'' @ ''starRegistry''"

text \<open>
  \<open>submitStar(address, message, signature, star)\<close>. The clock is read twice: \<open>ms\<close> is
  the reading taken in \<open>submitStar\<close>, \<open>ms'\<close> the one taken in \<open>_addBlock\<close>. The block
  is constructed after both checks; a rejection leaves the state as it was.
\<close>

definition submitStar ::
  "('a block \<Rightarrow> string) \<Rightarrow> (string \<Rightarrow> string \<Rightarrow> string \<Rightarrow> bool) \<Rightarrow> nat \<Rightarrow> nat \<Rightarrow>
   string \<Rightarrow> string \<Rightarrow> string \<Rightarrow> 'a \<Rightarrow> 'a blockchain \<Rightarrow> (error + nat) \<times> 'a blockchain" where
  "submitStar H verify ms ms' address message signature star c =
    (let mt = messageTime message;
         currentTime = timestamp ms
     in if elapsed_exceeds (toNumber currentTime) mt VALIDATION_TIMEOUT_SECONDS
        then (Inl ExpiredChallenge, c)
        else if \<not> verify message address signature
        then (Inl InvalidSignature, c)
        else (let (block, c1) = new_object (Block (Claim address star)) c;
                  (b, c') = addBlock H ms' block c1
              in (Inr b, c')))"

text \<open>
  \<open>getBlockByHash(hash)\<close> and \<open>getBlockByHeight(height)\<close>: \<open>Array.prototype.find\<close>;
  the result is the address of the block.
\<close>

definition getBlockByHash :: "string option \<Rightarrow> 'a blockchain \<Rightarrow> nat option" where
  "getBlockByHash h c = find (\<lambda>block. hash (block_at c block) = h) (chain c)"

definition getBlockByHeight :: "int \<Rightarrow> 'a blockchain \<Rightarrow> nat option" where
  "getBlockByHeight n c = find (\<lambda>block. block.height (block_at c block) = n) (chain c)"

text \<open>
  \<open>getStarsByWalletAddress(address)\<close>: the data of the blocks of \<open>chain.slice(1)\<close>,
  filtered by \<open>blockData.owner === address\<close>.
\<close>

definition getStarsByWalletAddress :: "string \<Rightarrow> 'a blockchain \<Rightarrow> 'a payload list" where
  "getStarsByWalletAddress address c =
    (let blocksData = map (\<lambda>block. getBData (block_at c block)) (drop 1 (chain c))
     in filter (\<lambda>blockData. owner blockData = Some address) blocksData)"

text \<open>
  \<open>validateChain()\<close>: \<open>validityByIndex\<close> holds the result of \<open>validate()\<close> for every
  block; the filter drops a block whose entry is true, and for any other block returns
  \<open>nextBlock && nextBlock.previousBlockHash !== block.hash\<close>, where \<open>nextBlock\<close> is
  \<open>this.chain[block.height + 1]\<close>. The result is the list of the addresses kept.
\<close>

definition keepInErrorLog :: "'a blockchain \<Rightarrow> bool list \<Rightarrow> nat \<times> nat \<Rightarrow> bool" where
  "keepInErrorLog c validityByIndex bi =
    (case bi of (block, index) \<Rightarrow>
       if validityByIndex ! index then False
       else (case at_index (chain c) (block.height (block_at c block) + 1) of
               None \<Rightarrow> False
             | Some nextBlock \<Rightarrow>
                 previousBlockHash (block_at c nextBlock) \<noteq> hash (block_at c block)))"

definition validateChain :: "('a block \<Rightarrow> string) \<Rightarrow> 'a blockchain \<Rightarrow> nat list" where
  "validateChain H c =
    (let validityByIndex = map (\<lambda>block. validate H (block_at c block)) (chain c);
         errorLog = map fst (filter (keepInErrorLog c validityByIndex)
                                    (zip (chain c) [0..<length (chain c)]))
     in errorLog)"

subsection \<open>Sequences of operations\<close>

text \<open>
  The operations that append a block object constructed for the purpose, each with the
  readings of the clock it takes: \<open>_addBlock\<close> with a new object that has the given
  fields, \<open>initializeChain\<close> and \<open>submitStar\<close>.
\<close>

datatype 'a operation =
    AddBlock nat "'a block"
  | InitializeChain nat
  | SubmitStar nat nat string string string 'a

text \<open>A caller builds a new block object with the given fields and hands it to \<open>_addBlock\<close>.\<close>

definition addNew :: "('a block \<Rightarrow> string) \<Rightarrow> nat \<Rightarrow> 'a block \<Rightarrow> 'a blockchain \<Rightarrow> 'a blockchain" where
  "addNew H ms block c = (let (r, c1) = new_object block c in snd (addBlock H ms r c1))"

fun exec ::
  "('a block \<Rightarrow> string) \<Rightarrow> (string \<Rightarrow> string \<Rightarrow> string \<Rightarrow> bool) \<Rightarrow>
   'a blockchain \<Rightarrow> 'a operation \<Rightarrow> 'a blockchain" where
  "exec H verify c (AddBlock ms block) = addNew H ms block c"
| "exec H verify c (InitializeChain ms) = initializeChain H ms c"
| "exec H verify c (SubmitStar ms ms' address message signature star) =
     snd (submitStar H verify ms ms' address message signature star c)"

definition run ::
  "('a block \<Rightarrow> string) \<Rightarrow> (string \<Rightarrow> string \<Rightarrow> string \<Rightarrow> bool) \<Rightarrow>
   'a operation list \<Rightarrow> 'a blockchain \<Rightarrow> 'a blockchain" where
  "run H verify ops c = foldl (exec H verify) c ops"

text \<open>
  Any call: one of the operations above, or \<open>_addBlock(this.chain[i])\<close>, which hands
  over an object that is in the chain already. With \<open>i\<close> outside the chain the argument
  is \<open>undefined\<close> and the first assignment of \<open>_addBlock\<close> throws before anything changes.
\<close>

datatype 'a call =
    Fresh "'a operation"
  | AddAgain nat nat

fun exec_call ::
  "('a block \<Rightarrow> string) \<Rightarrow> (string \<Rightarrow> string \<Rightarrow> string \<Rightarrow> bool) \<Rightarrow>
   'a blockchain \<Rightarrow> 'a call \<Rightarrow> 'a blockchain" where
  "exec_call H verify c (Fresh op) = exec H verify c op"
| "exec_call H verify c (AddAgain ms i) =
     (if i < length (chain c) then snd (addBlock H ms (chain c ! i) c) else c)"

definition run_calls ::
  "('a block \<Rightarrow> string) \<Rightarrow> (string \<Rightarrow> string \<Rightarrow> string \<Rightarrow> bool) \<Rightarrow>
   'a call list \<Rightarrow> 'a blockchain \<Rightarrow> 'a blockchain" where
  "run_calls H verify calls c = foldl (exec_call H verify) c calls"

text \<open>An operation hands \<open>_addBlock\<close> a block whose hash slot is still empty.\<close>

definition empty_slot :: "'a operation \<Rightarrow> bool" where
  "empty_slot op = (case op of AddBlock ms block \<Rightarrow> hash block = None | _ \<Rightarrow> True)"

subsection \<open>Properties stated by the specification\<close>

text \<open>Every address in the chain is the address of an object of the store.\<close>

definition allocated :: "'a blockchain \<Rightarrow> bool" where
  "allocated c = list_all (\<lambda>r. r < length (objects c)) (chain c)"

text \<open>The counter is the length of the chain minus one.\<close>

definition lengthInv :: "'a blockchain \<Rightarrow> bool" where
  "lengthInv c = (height c = int (length (chain c)) - 1)"

text \<open>
  The height invariant: the counter is the length of the chain minus one, and the block
  at position \<open>i\<close> has height \<open>i\<close>.
\<close>

definition heightInv :: "'a blockchain \<Rightarrow> bool" where
  "heightInv c =
    (allocated c \<and> height c = int (length (chain c)) - 1 \<and>
     map block.height (records c) = map int [0..<length (chain c)])"

text \<open>The hash linkage: every block but the first records the hash of its predecessor.\<close>

definition linkInv :: "'a blockchain \<Rightarrow> bool" where
  "linkInv c = (map previousBlockHash (tl (records c)) = map hash (butlast (records c)))"

text \<open>
  The four fields the specification lets the hash depend on, as the block that the
  digest function receives: the hash slot is empty.
\<close>

definition canonical :: "int \<Rightarrow> string \<Rightarrow> string option \<Rightarrow> 'a payload \<Rightarrow> 'a block" where
  "canonical h t p d = \<lparr>hash = None, height = h, body = d, time = t, previousBlockHash = p\<rparr>"

text \<open>
  The block that \<open>_addBlock\<close> leaves in the object it was given, in terms of the
  state before the call and of the block the object held.
\<close>

definition stamped :: "('a block \<Rightarrow> string) \<Rightarrow> nat \<Rightarrow> 'a blockchain \<Rightarrow> 'a block \<Rightarrow> 'a block" where
  "stamped H ms c b =
    (let b3 = b\<lparr>block.height := height c + 1, time := timestamp ms,
               previousBlockHash :=
                 (if chain c = [] then previousBlockHash b
                  else hash (block_at c (last (chain c))))\<rparr>
     in b3\<lparr>hash := Some (H b3)\<rparr>)"

text \<open>
  Chain validation in the words of the specification: a record is corrupt if its
  self-validation is false; else if a successor exists and the successor's previous hash
  differs from the record's hash. The corrupt records are returned in chain order.
\<close>

definition corrupt_spec :: "('a block \<Rightarrow> string) \<Rightarrow> 'a blockchain \<Rightarrow> nat \<times> nat \<Rightarrow> bool" where
  "corrupt_spec H c ri =
    (case ri of (r, i) \<Rightarrow>
       if \<not> validate H (block_at c r) then True
       else (case at_index (chain c) (int i + 1) of
               None \<Rightarrow> False
             | Some successor \<Rightarrow>
                 previousBlockHash (block_at c successor) \<noteq> hash (block_at c r)))"

definition validateChain_spec :: "('a block \<Rightarrow> string) \<Rightarrow> 'a blockchain \<Rightarrow> nat list" where
  "validateChain_spec H c =
    map fst (filter (corrupt_spec H c) (zip (chain c) [0..<length (chain c)]))"

text \<open>
  The owner filter in the words of the specification: scan the records after the
  genesis record in order and keep the claims whose owner is the address.
\<close>

fun claimsOf :: "string \<Rightarrow> 'a block list \<Rightarrow> 'a payload list" where
  "claimsOf address [] = []"
| "claimsOf address (rec # recs) =
    (case getBData rec of
       Literal l \<Rightarrow> claimsOf address recs
     | Claim a s \<Rightarrow>
         (if a = address then Claim a s # claimsOf address recs
          else claimsOf address recs))"

definition getClaimsByOwner_spec :: "string \<Rightarrow> 'a block list \<Rightarrow> 'a payload list" where
  "getClaimsByOwner_spec address recs =
    (case recs of [] \<Rightarrow> [] | genesis # rest \<Rightarrow> claimsOf address rest)"

subsection \<open>Concrete ledgers\<close>

text \<open>
  To run the definitions on concrete ledgers the two library functions need concrete
  stand-ins. The digest stand-in writes the five fields out one after the other, so that
  blocks that differ in a field have different digests; the verifier stand-in accepts
  the signature made of the address, a bar and the message. Stars are strings here.
\<close>

definition plain_digest :: "string block \<Rightarrow> string" where
  "plain_digest b =
    (case hash b of None \<Rightarrow> ''null'' | Some h \<Rightarrow> h) @ '','' @
    (if 0 \<le> block.height b then toString (nat (block.height b))
     else ''-'' @ toString (nat (- block.height b))) @ '','' @
    (case body b of Literal s \<Rightarrow> s | Claim a s \<Rightarrow> a @ ''/'' @ s) @ '','' @
    time b @ '','' @
    (case previousBlockHash b of None \<Rightarrow> ''null'' | Some p \<Rightarrow> p)"

definition plain_verify :: "string \<Rightarrow> string \<Rightarrow> string \<Rightarrow> bool" where
  "plain_verify message address signature = (signature = address @ ''|'' @ message)"

text \<open>A ledger just constructed, the same after one block was added, and after two.\<close>

definition ledger0 :: "string blockchain" where
  "ledger0 = Blockchain plain_digest 1700000000000"

definition ledger1 :: "string blockchain" where
  "ledger1 = addNew plain_digest 1700000060000 (Block (Literal ''foo'')) ledger0"

definition ledger2 :: "string blockchain" where
  "ledger2 = run plain_digest plain_verify
     [AddBlock 1700000060000 (Block (Literal ''foo'')),
      AddBlock 1700000120000 (Block (Literal ''bar''))] ledger0"

text \<open>A field of the block at position \<open>i\<close> of the chain is overwritten from outside.\<close>

definition tamper :: "nat \<Rightarrow> ('a block \<Rightarrow> 'a block) \<Rightarrow> 'a blockchain \<Rightarrow> 'a blockchain" where
  "tamper i f c = assign (chain c ! i) f c"

section \<open>Properties\<close>

subsection \<open>Decimal strings and the clock\<close>

lemma below_ten: "(d::nat) < 10 \<Longrightarrow> d \<in> {0, 1, 2, 3, 4, 5, 6, 7, 8, 9}"
  by auto

lemma of_char_digit: "d < 10 \<Longrightarrow> (of_char (digit d) :: nat) = 48 + d"
  using below_ten[of d] by (auto simp: digit_def)

lemma isDigit_digit: "d < 10 \<Longrightarrow> isDigit (digit d)"
  by (simp add: isDigit_def of_char_digit)

lemma digitValue_digit: "d < 10 \<Longrightarrow> digitValue (digit d) = int d"
  by (simp add: digitValue_def of_char_digit)

lemma toString_digits: "list_all isDigit (toString n)"
proof (induction n rule: toString.induct)
  case (1 n)
  show ?case
  proof (cases "n < 10")
    case True
    then show ?thesis by (subst toString.simps) (simp add: isDigit_digit)
  next
    case False
    with 1 show ?thesis by (subst toString.simps) (simp add: isDigit_digit)
  qed
qed

lemma digitsValue_snoc: "digitsValue (s @ [c]) = 10 * digitsValue s + digitValue c"
  by (simp add: digitsValue_def)

lemma digitsValue_toString: "digitsValue (toString n) = int n"
proof (induction n rule: toString.induct)
  case (1 n)
  show ?case
  proof (cases "n < 10")
    case True
    then show ?thesis
      by (subst toString.simps) (simp add: digitsValue_def digitValue_digit)
  next
    case False
    with 1 have "digitsValue (toString (n div 10)) = int (n div 10)" by simp
    with False show ?thesis
      by (subst toString.simps) (simp add: digitsValue_snoc digitValue_digit, presburger)
  qed
qed

lemma toString_nonempty: "toString n \<noteq> []"
  by (subst toString.simps) simp

lemma butlast_toString: "10 \<le> n \<Longrightarrow> butlast (toString n) = toString (n div 10)"
  by (subst toString.simps) simp

lemma length_toString_small: "n < 10 \<Longrightarrow> length (toString n) = 1"
  by (subst toString.simps) simp

lemma slice_butlast: "slice_0_minus3 s = butlast (butlast (butlast s))"
  by (simp add: slice_0_minus3_def butlast_conv_take numeral_3_eq_3)

lemma timestamp_seconds: "1000 \<le> ms \<Longrightarrow> timestamp ms = toString (ms div 1000)"
proof -
  assume a: "1000 \<le> ms"
  then have 1: "butlast (toString ms) = toString (ms div 10)"
    by (simp add: butlast_toString)
  from a have 2: "butlast (toString (ms div 10)) = toString (ms div 10 div 10)"
    by (simp add: butlast_toString)
  from a have 3: "butlast (toString (ms div 10 div 10)) = toString (ms div 10 div 10 div 10)"
    by (simp add: butlast_toString)
  have "ms div 10 div 10 div 10 = ms div 1000"
    by (simp add: div_mult2_eq[symmetric])
  with 1 2 3 show ?thesis
    by (simp add: timestamp_def slice_butlast)
qed

lemma length_toString_le3: "n < 1000 \<Longrightarrow> length (toString n) \<le> 3"
proof -
  assume a: "n < 1000"
  show ?thesis
  proof (cases "n < 10")
    case True
    then show ?thesis by (simp add: length_toString_small)
  next
    case False
    then have s1: "toString n = toString (n div 10) @ [digit (n mod 10)]"
      by (subst toString.simps) simp
    show ?thesis
    proof (cases "n div 10 < 10")
      case True
      with s1 show ?thesis by (simp add: length_toString_small)
    next
      case False
      then have s2: "toString (n div 10) = toString (n div 10 div 10) @ [digit (n div 10 mod 10)]"
        by (subst toString.simps) simp
      from a have "n div 10 div 10 < 10" by simp
      with s1 s2 show ?thesis by (simp add: length_toString_small)
    qed
  qed
qed

lemma toNumber_timestamp: "toNumber (timestamp ms) = Some (int (ms div 1000))"
proof (cases "1000 \<le> ms")
  case True
  then show ?thesis
    by (simp add: timestamp_seconds toNumber_def toString_digits digitsValue_toString)
next
  case False
  then have "length (toString ms) \<le> 3" by (simp add: length_toString_le3)
  then have "timestamp ms = []" by (simp add: timestamp_def slice_0_minus3_def)
  with False show ?thesis by (simp add: toNumber_def digitsValue_def)
qed

subsection \<open>Assignments and allocation\<close>

lemma chain_assign: "chain (assign r f c) = chain c"
  by (simp add: assign_def)

lemma height_assign: "height (assign r f c) = height c"
  by (simp add: assign_def)

lemma length_objects_assign: "length (objects (assign r f c)) = length (objects c)"
  by (simp add: assign_def)

lemma block_at_assign:
  "block_at (assign r f c) q =
     (if q = r \<and> r < length (objects c) then f (block_at c r) else block_at c q)"
proof (cases "r < length (objects c)")
  case True
  then show ?thesis by (simp add: assign_def block_at_def nth_list_update)
next
  case False
  then have "(objects c)[r := f (objects c ! r)] = objects c" by (simp add: list_update_beyond)
  with False show ?thesis by (simp add: assign_def block_at_def)
qed

lemma chain_addBlock: "chain (snd (addBlock H ms r c)) = chain c @ [r]"
  by (simp add: addBlock_def Let_def chain_assign)

lemma height_addBlock: "height (snd (addBlock H ms r c)) = height c + 1"
  by (simp add: addBlock_def Let_def height_assign)

lemma fst_addBlock: "fst (addBlock H ms r c) = r"
  by (simp add: addBlock_def Let_def)

lemma objects_addBlock:
  assumes "r < length (objects c)"
  shows "objects (snd (addBlock H ms r c)) = (objects c)[r := stamped H ms c (block_at c r)]"
proof (cases "chain c = []")
  case True
  with assms show ?thesis
    by (simp add: addBlock_def Let_def assign_def block_at_def stamped_def)
next
  case False
  have "hash ((objects c)[r := b] ! q) = hash (objects c ! q)"
    if "hash b = hash (objects c ! r)" for b q
    using that assms by (cases "q = r") simp_all
  with False assms show ?thesis
    by (simp add: addBlock_def Let_def assign_def block_at_def stamped_def last_conv_nth)
qed

lemma addBlock_eq:
  assumes "r < length (objects c)"
  shows "snd (addBlock H ms r c) =
    \<lparr>objects = (objects c)[r := stamped H ms c (block_at c r)],
     chain = chain c @ [r], height = height c + 1\<rparr>"
  using assms
  by (intro blockchain.equality) (simp_all add: objects_addBlock chain_addBlock height_addBlock)

subsection \<open>Operations that append a new object\<close>

lemma allocated_nth: "allocated c \<Longrightarrow> r \<in> set (chain c) \<Longrightarrow> r < length (objects c)"
  by (simp add: allocated_def list_all_iff)

lemma allocated_last: "allocated c \<Longrightarrow> chain c \<noteq> [] \<Longrightarrow> last (chain c) < length (objects c)"
  by (simp add: allocated_nth)

lemma stamped_new_object:
  assumes "allocated c"
  shows "stamped H ms (c\<lparr>objects := objects c @ [b']\<rparr>) b = stamped H ms c b"
proof (cases "chain c = []")
  case True
  then show ?thesis by (simp add: stamped_def)
next
  case False
  with assms have "last (chain c) < length (objects c)" by (rule allocated_last)
  then show ?thesis by (simp add: stamped_def block_at_def nth_append)
qed

lemma addNew_eq:
  assumes "allocated c"
  shows "addNew H ms block c =
    \<lparr>objects = objects c @ [stamped H ms c block],
     chain = chain c @ [length (objects c)], height = height c + 1\<rparr>"
proof -
  let ?c1 = "c\<lparr>objects := objects c @ [block]\<rparr>"
  have "snd (addBlock H ms (length (objects c)) ?c1) =
    \<lparr>objects = (objects ?c1)[length (objects c) := stamped H ms ?c1 (block_at ?c1 (length (objects c)))],
     chain = chain ?c1 @ [length (objects c)], height = height ?c1 + 1\<rparr>"
    by (rule addBlock_eq) simp
  with assms show ?thesis
    by (simp add: addNew_def new_object_def stamped_new_object block_at_def)
qed

lemma initializeChain_exec:
  "initializeChain H ms c =
     (if height c = - 1 then addNew H ms (Block (Literal ''Genesis Block'')) c else c)"
  by (simp add: initializeChain_def addNew_def)

lemma snd_submitStar:
  "snd (submitStar H verify ms ms' address message signature star c) =
    (if elapsed_exceeds (toNumber (timestamp ms)) (messageTime message) VALIDATION_TIMEOUT_SECONDS
        \<or> \<not> verify message address signature
     then c
     else addNew H ms' (Block (Claim address star)) c)"
  by (simp add: submitStar_def addNew_def Let_def split_beta)

lemma exec_cases:
  "exec H verify c op = c \<or> (\<exists>ms block. exec H verify c op = addNew H ms block c)"
proof (cases op)
  case (AddBlock ms block)
  then show ?thesis by auto
next
  case (InitializeChain ms)
  then show ?thesis using initializeChain_exec[of H ms c] by auto
next
  case (SubmitStar ms ms' address message signature star)
  then show ?thesis using snd_submitStar[of H verify ms ms' address message signature star c] by auto
qed

lemma allocated_AddBlock:
  assumes "allocated c"
  shows "allocated (addNew H ms block c)"
proof -
  have "\<forall>r \<in> set (chain c). r < Suc (length (objects c))"
    using assms by (auto simp: allocated_def list_all_iff)
  then show ?thesis using assms by (simp add: addNew_eq allocated_def list_all_iff)
qed

lemma allocated_exec: "allocated c \<Longrightarrow> allocated (exec H verify c op)"
  using exec_cases[of H verify c op] by (auto simp: allocated_AddBlock)

lemma allocated_empty: "allocated \<lparr>objects = [], chain = [], height = - 1\<rparr>"
  by (simp add: allocated_def)

lemma allocated_Blockchain: "allocated (Blockchain H ms)"
  using allocated_exec[OF allocated_empty, of H undefined "InitializeChain ms"]
  by (simp add: Blockchain_def)

lemma allocated_run: "allocated c \<Longrightarrow> allocated (run H verify ops c)"
  unfolding run_def by (induction ops arbitrary: c) (simp_all add: allocated_exec)

lemma records_AddBlock:
  assumes "allocated c"
  shows "records (addNew H ms block c) = records c @ [stamped H ms c block]"
proof -
  have "map ((!) (objects c @ [b])) (chain c) = map ((!) (objects c)) (chain c)" for b
    using assms by (auto simp: allocated_def list_all_iff nth_append)
  with assms show ?thesis
    by (simp add: addNew_eq records_def block_at_def [abs_def])
qed

lemma chain_AddBlock:
  "allocated c \<Longrightarrow> chain (addNew H ms block c) = chain c @ [length (objects c)]"
  by (simp add: addNew_eq)

lemma height_AddBlock:
  "allocated c \<Longrightarrow> height (addNew H ms block c) = height c + 1"
  by (simp add: addNew_eq)

lemma length_records: "length (records c) = length (chain c)"
  by (simp add: records_def)

lemma block_height_stamped: "block.height (stamped H ms c b) = height c + 1"
  by (simp add: stamped_def Let_def)

lemma body_stamped: "body (stamped H ms c b) = body b"
  by (simp add: stamped_def Let_def)

lemma time_stamped: "time (stamped H ms c b) = timestamp ms"
  by (simp add: stamped_def Let_def)

lemma previous_stamped:
  "chain c \<noteq> [] \<Longrightarrow> previousBlockHash (stamped H ms c b) = hash (last (records c))"
  by (simp add: stamped_def Let_def records_def last_map)

lemma previous_stamped_empty:
  "chain c = [] \<Longrightarrow> previousBlockHash (stamped H ms c b) = previousBlockHash b"
  by (simp add: stamped_def Let_def)

lemma validate_stamped: "hash b = None \<Longrightarrow> validate H (stamped H ms c b)"
proof -
  assume a: "hash b = None"
  obtain h hg d t p where "b = \<lparr>hash = h, height = hg, body = d, time = t, previousBlockHash = p\<rparr>"
    by (cases b) auto
  with a show ?thesis by (simp add: stamped_def Let_def validate_def computeHash_def)
qed

lemma heightInv_AddBlock:
  assumes "heightInv c"
  shows "heightInv (addNew H ms block c)"
proof -
  from assms have a: "allocated c" by (simp add: heightInv_def)
  with assms show ?thesis
    by (simp add: heightInv_def allocated_AddBlock records_AddBlock chain_AddBlock
        height_AddBlock block_height_stamped)
qed

lemma heightInv_exec: "heightInv c \<Longrightarrow> heightInv (exec H verify c op)"
  using exec_cases[of H verify c op] by (auto simp: heightInv_AddBlock)

lemma heightInv_empty: "heightInv \<lparr>objects = [], chain = [], height = - 1\<rparr>"
  by (simp add: heightInv_def allocated_def records_def)

lemma heightInv_Blockchain: "heightInv (Blockchain H ms)"
  using heightInv_exec[OF heightInv_empty, of H undefined "InitializeChain ms"]
  by (simp add: Blockchain_def)

lemma heightInv_run: "heightInv c \<Longrightarrow> heightInv (run H verify ops c)"
  unfolding run_def by (induction ops arbitrary: c) (simp_all add: heightInv_exec)

lemma linkInv_AddBlock:
  assumes "allocated c" and "linkInv c"
  shows "linkInv (addNew H ms block c)"
proof (cases "chain c = []")
  case True
  then have "records c = []" by (simp add: records_def)
  with assms show ?thesis by (simp add: linkInv_def records_AddBlock)
next
  case False
  then have ne: "records c \<noteq> []" by (simp add: records_def)
  then have "map hash (butlast (records c)) @ [hash (last (records c))] = map hash (records c)"
    by (metis append_butlast_last_id list.simps(8,9) map_append)
  with assms False ne show ?thesis
    by (simp add: linkInv_def records_AddBlock previous_stamped)
qed

lemma linkInv_exec: "allocated c \<Longrightarrow> linkInv c \<Longrightarrow> linkInv (exec H verify c op)"
  using exec_cases[of H verify c op] by (auto simp: linkInv_AddBlock)

lemma linkInv_run: "allocated c \<Longrightarrow> linkInv c \<Longrightarrow> linkInv (run H verify ops c)"
  unfolding run_def
  by (induction ops arbitrary: c) (simp_all add: linkInv_exec allocated_exec)

lemma linkInv_empty: "linkInv \<lparr>objects = [], chain = [], height = - 1\<rparr>"
  by (simp add: linkInv_def records_def)

lemma linkInv_Blockchain: "linkInv (Blockchain H ms)"
  using linkInv_exec[OF allocated_empty linkInv_empty, of H undefined "InitializeChain ms"]
  by (simp add: Blockchain_def)

lemma heightInv_nth:
  "heightInv c \<Longrightarrow> i < length (chain c) \<Longrightarrow> block.height (block_at c (chain c ! i)) = int i"
proof -
  assume a: "heightInv c" and i: "i < length (chain c)"
  then have "map block.height (records c) ! i = map int [0..<length (chain c)] ! i"
    by (simp add: heightInv_def)
  with i show ?thesis by (simp add: records_def)
qed

lemma linkInv_nth:
  "linkInv c \<Longrightarrow> Suc i < length (chain c) \<Longrightarrow>
   previousBlockHash (block_at c (chain c ! Suc i)) = hash (block_at c (chain c ! i))"
proof -
  assume a: "linkInv c" and i: "Suc i < length (chain c)"
  then have "map previousBlockHash (tl (records c)) ! i = map hash (butlast (records c)) ! i"
    by (simp add: linkInv_def)
  with i show ?thesis by (simp add: nth_butlast nth_tl records_def)
qed

lemma validateChain_linked:
  assumes h: "heightInv c" and l: "linkInv c"
  shows "validateChain H c = []"
proof -
  have "\<not> keepInErrorLog c (map (\<lambda>block. validate H (block_at c block)) (chain c)) bi"
    if "bi \<in> set (zip (chain c) [0..<length (chain c)])" for bi
  proof -
    obtain block index where bi: "bi = (block, index)" by (cases bi)
    with that have idx: "index < length (chain c)" and blk: "block = chain c ! index"
      by (auto simp: set_zip)
    from h idx blk have hb: "block.height (block_at c block) = int index"
      by (simp add: heightInv_nth)
    show ?thesis
    proof (cases "Suc index < length (chain c)")
      case True
      with l blk have "previousBlockHash (block_at c (chain c ! Suc index)) = hash (block_at c block)"
        by (simp add: linkInv_nth)
      moreover from True have "at_index (chain c) (int index + 1) = Some (chain c ! Suc index)"
        by (simp add: at_index_def nat_add_distrib)
      ultimately show ?thesis by (simp add: keepInErrorLog_def bi hb)
    next
      case False
      then have "at_index (chain c) (int index + 1) = None" by (simp add: at_index_def)
      then show ?thesis by (simp add: keepInErrorLog_def bi hb)
    qed
  qed
  then have "filter (keepInErrorLog c (map (\<lambda>block. validate H (block_at c block)) (chain c)))
               (zip (chain c) [0..<length (chain c)]) = []"
    by (simp add: filter_empty_conv)
  then show ?thesis by (simp add: validateChain_def)
qed

subsection \<open>The counter and the length of the chain\<close>

lemma chain_addNew: "chain (addNew H ms block c) = chain c @ [length (objects c)]"
  by (simp add: addNew_def new_object_def chain_addBlock)

lemma height_addNew: "height (addNew H ms block c) = height c + 1"
  by (simp add: addNew_def new_object_def height_addBlock)

lemma lengthInv_exec: "lengthInv c \<Longrightarrow> lengthInv (exec H verify c op)"
  using exec_cases[of H verify c op] by (auto simp: lengthInv_def chain_addNew height_addNew)

lemma lengthInv_exec_call:
  assumes "lengthInv c"
  shows "lengthInv (exec_call H verify c call)"
proof (cases call)
  case (Fresh op)
  with assms show ?thesis by (simp add: lengthInv_exec)
next
  case (AddAgain ms i)
  with assms show ?thesis by (auto simp: lengthInv_def chain_addBlock height_addBlock)
qed

lemma lengthInv_run_calls: "lengthInv c \<Longrightarrow> lengthInv (run_calls H verify calls c)"
  unfolding run_calls_def by (induction calls arbitrary: c) (simp_all add: lengthInv_exec_call)

lemma length_exec: "length (chain c) \<le> length (chain (exec H verify c op))"
  using exec_cases[of H verify c op] by (auto simp: chain_addNew)

lemma length_exec_call: "length (chain c) \<le> length (chain (exec_call H verify c call))"
  using length_exec[of c H verify] by (cases call) (auto simp: chain_addBlock)

lemma length_run_calls: "length (chain c) \<le> length (chain (run_calls H verify calls c))"
  unfolding run_calls_def
proof (induction calls arbitrary: c)
  case Nil
  then show ?case by simp
next
  case (Cons call calls)
  from length_exec_call[of c H verify call] Cons[of "exec_call H verify c call"]
  show ?case by simp
qed

lemma lengthInv_Blockchain: "lengthInv (Blockchain H ms)"
  by (simp add: Blockchain_def initializeChain_exec lengthInv_def chain_addNew height_addNew)

lemma length_chain_Blockchain: "length (chain (Blockchain H ms)) = 1"
  by (simp add: Blockchain_def initializeChain_exec chain_addNew)

lemma height_run_calls_Blockchain: "height (run_calls H verify calls (Blockchain H ms)) \<noteq> - 1"
proof -
  let ?c = "run_calls H verify calls (Blockchain H ms)"
  have "lengthInv ?c" by (simp add: lengthInv_run_calls lengthInv_Blockchain)
  then have h: "height ?c = int (length (chain ?c)) - 1" by (simp add: lengthInv_def)
  from length_run_calls[of "Blockchain H ms" H verify calls] have "chain ?c \<noteq> []"
    by (auto simp: length_chain_Blockchain)
  with h show ?thesis by simp
qed

lemma initializeChain_noop: "height c \<noteq> - 1 \<Longrightarrow> initializeChain H ms c = c"
  by (simp add: initializeChain_def)

lemma initializeChain_twice:
  "initializeChain H ms' (initializeChain H ms c) = initializeChain H ms c"
  by (simp add: initializeChain_exec height_addNew)

lemma height_Blockchain: "height (Blockchain H ms) = 0"
  by (simp add: Blockchain_def initializeChain_exec height_addNew)

lemma fold_initializeChain:
  "height c \<noteq> - 1 \<Longrightarrow> foldl (\<lambda>c ms'. initializeChain H ms' c) c mss = c"
  by (induction mss) (simp_all add: initializeChain_noop)

lemma records_Blockchain:
  "records (Blockchain H ms) =
     [stamped H ms \<lparr>objects = [], chain = [], height = - 1\<rparr> (Block (Literal ''Genesis Block''))]"
  using records_AddBlock[OF allocated_empty, of H ms "Block (Literal ''Genesis Block'')"]
  by (simp add: Blockchain_def initializeChain_exec records_def)

subsection \<open>Stored blocks stay as they are\<close>

lemma prefix_exec:
  assumes "allocated c"
  shows "take (length (objects c)) (objects (exec H verify c op)) = objects c \<and>
         take (length (chain c)) (chain (exec H verify c op)) = chain c"
  using exec_cases[of H verify c op] assms by (auto simp: addNew_eq)

lemma grow_exec:
  assumes "allocated c"
  shows "length (objects c) \<le> length (objects (exec H verify c op))"
  using exec_cases[of H verify c op] assms by (auto simp: addNew_eq)

lemma take_take_le: "m \<le> n \<Longrightarrow> take m xs = take m (take n xs)"
  by (simp add: min_def)

lemma prefix_run:
  assumes "allocated c"
  shows "take (length (objects c)) (objects (run H verify ops c)) = objects c \<and>
         take (length (chain c)) (chain (run H verify ops c)) = chain c"
  using assms
proof (induction ops arbitrary: c)
  case Nil
  then show ?case by (simp add: run_def)
next
  case (Cons op ops)
  let ?d = "exec H verify c op"
  from Cons.prems have d: "allocated ?d" by (rule allocated_exec)
  from Cons.IH[OF d] have
    o: "take (length (objects ?d)) (objects (run H verify ops ?d)) = objects ?d" and
    k: "take (length (chain ?d)) (chain (run H verify ops ?d)) = chain ?d"
    by simp_all
  from prefix_exec[OF Cons.prems, of H verify op] have
    o': "take (length (objects c)) (objects ?d) = objects c" and
    k': "take (length (chain c)) (chain ?d) = chain c"
    by simp_all
  have "take (length (objects c)) (objects (run H verify ops ?d)) = objects c"
    using take_take_le[OF grow_exec[OF Cons.prems, of H verify op], of "objects (run H verify ops ?d)"]
    by (simp only: o o')
  moreover have "take (length (chain c)) (chain (run H verify ops ?d)) = chain c"
    using take_take_le[OF length_exec[of c H verify op], of "chain (run H verify ops ?d)"]
    by (simp only: k k')
  ultimately show ?case by (simp add: run_def)
qed

subsection \<open>Blocks appended with an empty hash slot validate\<close>

lemma valid_exec:
  assumes "allocated c" and "list_all (validate H) (records c)" and "empty_slot op"
  shows "list_all (validate H) (records (exec H verify c op))"
proof (cases op)
  case (AddBlock ms block)
  with assms show ?thesis by (simp add: records_AddBlock validate_stamped empty_slot_def)
next
  case (InitializeChain ms)
  with assms show ?thesis
    by (simp add: initializeChain_exec records_AddBlock validate_stamped Block_def)
next
  case (SubmitStar ms ms' address message signature star)
  with assms show ?thesis
    by (simp add: snd_submitStar records_AddBlock validate_stamped Block_def)
qed

lemma valid_run:
  "allocated c \<Longrightarrow> list_all (validate H) (records c) \<Longrightarrow> list_all empty_slot ops \<Longrightarrow>
   list_all (validate H) (records (run H verify ops c))"
  unfolding run_def
  by (induction ops arbitrary: c) (simp_all add: valid_exec allocated_exec)

lemma valid_Blockchain: "list_all (validate H) (records (Blockchain H ms))"
  by (simp add: records_Blockchain validate_stamped Block_def)

subsection \<open>The owner filter\<close>

lemma filter_map_comprehension: "filter Q (map f xs) = [f x. x \<leftarrow> xs, Q (f x)]"
  by (induction xs) simp_all

lemma drop1_nth: "drop 1 xs = map (\<lambda>i. xs ! i) [1..<length xs]"
proof -
  have "drop 1 xs = drop 1 (map (\<lambda>i. xs ! i) [0..<length xs])"
    by (simp only: map_nth)
  also have "\<dots> = map (\<lambda>i. xs ! i) (drop 1 [0..<length xs])"
    by (simp only: drop_map)
  also have "drop 1 [0..<length xs] = [1..<length xs]"
    by (simp only: drop_upt) simp
  finally show ?thesis .
qed



lemma claimsOf_filter:
  "filter (\<lambda>blockData. owner blockData = Some address) (map getBData rs) = claimsOf address rs"
proof (induction rs)
  case Nil
  then show ?case by simp
next
  case (Cons r rs)
  then show ?case by (cases "getBData r") auto
qed

subsection \<open>Challenges\<close>

lemma split_field:
  "sep \<notin> set xs \<Longrightarrow> split sep (xs @ sep # rest) = xs # split sep rest"
  by (induction xs) auto

lemma isDigit_not_colon: "isDigit c \<Longrightarrow> c \<noteq> CHR '':''"
  by (auto simp: isDigit_def)

lemma isDigit_not_space: "isDigit c \<Longrightarrow> \<not> isWhiteSpace c"
  by (auto simp: isDigit_def isWhiteSpace_def)

lemma isDigit_not_sign: "isDigit c \<Longrightarrow> c \<noteq> CHR ''-'' \<and> c \<noteq> CHR ''+''"
  by (auto simp: isDigit_def)

lemma parseInt_digits:
  assumes "list_all isDigit s" and "s \<noteq> []"
  shows "parseInt s = Some (digitsValue s)"
proof -
  from assms obtain c cs where s: "s = c # cs" by (cases s) auto
  with assms have c: "isDigit c" by simp
  then have d: "dropWhile isWhiteSpace s = s"
    by (simp add: s isDigit_not_space)
  from c have h: "hd s \<noteq> CHR ''-''" "hd s \<noteq> CHR ''+''"
    by (simp_all add: s isDigit_not_sign)
  have t: "takeWhile isDigit s = s"
    using assms(1) by (simp add: list_all_iff)
  show ?thesis
    unfolding parseInt_def Let_def d
    using assms(2) h by (simp only: t if_False simp_thms)
qed

lemma parseInt_toString: "parseInt (toString n) = Some (int n)"
  by (simp add: parseInt_digits toString_digits toString_nonempty digitsValue_toString)

lemma messageTime_request:
  assumes "CHR '':'' \<notin> set address" and "1000 \<le> ms"
  shows "messageTime (requestMessageOwnershipVerification ms address) = Some (int (ms div 1000))"
proof -
  let ?ts = "toString (ms div 1000)"
  have "CHR '':'' \<notin> set ?ts"
    using toString_digits[of "ms div 1000"] isDigit_not_colon by (auto simp: list_all_iff)
  then have "split CHR '':'' (?ts @ CHR '':'' # ''starRegistry'') = ?ts # split CHR '':'' ''starRegistry''"
    by (rule split_field)
  with assms(1) have "split CHR '':'' (address @ CHR '':'' # ?ts @ CHR '':'' # ''starRegistry'')
      = address # ?ts # split CHR '':'' ''starRegistry''"
    by (simp add: split_field)
  then have "at_index (split CHR '':'' (requestMessageOwnershipVerification ms address)) 1 = Some ?ts"
    using assms(2) by (simp add: requestMessageOwnershipVerification_def timestamp_seconds at_index_def)
  then show ?thesis by (simp add: messageTime_def parseInt_toString)
qed

subsection \<open>What chain validation reports\<close>

lemma map_fst_filter_zip:
  "length xs = length ys \<Longrightarrow> map fst (filter (\<lambda>p. Q (fst p)) (zip xs ys)) = filter Q xs"
  by (induction xs ys rule: list_induct2) simp_all

text \<open>
  What the filter of \<open>validateChain\<close> keeps: the blocks that do not validate and
  whose successor, looked up by the height stored in the block, has another back-link.
\<close>

lemma validateChain_filter:
  "validateChain H c =
     filter (\<lambda>block. \<not> validate H (block_at c block) \<and>
               (case at_index (chain c) (block.height (block_at c block) + 1) of
                  None \<Rightarrow> False
                | Some nextBlock \<Rightarrow>
                    previousBlockHash (block_at c nextBlock) \<noteq> hash (block_at c block)))
            (chain c)"
proof -
  let ?Q = "\<lambda>block. \<not> validate H (block_at c block) \<and>
               (case at_index (chain c) (block.height (block_at c block) + 1) of
                  None \<Rightarrow> False
                | Some nextBlock \<Rightarrow>
                    previousBlockHash (block_at c nextBlock) \<noteq> hash (block_at c block))"
  have "keepInErrorLog c (map (\<lambda>block. validate H (block_at c block)) (chain c)) bi = ?Q (fst bi)"
    if "bi \<in> set (zip (chain c) [0..<length (chain c)])" for bi
  proof -
    obtain block index where bi: "bi = (block, index)" by (cases bi)
    with that have "index < length (chain c)" and "block = chain c ! index"
      by (auto simp: set_zip)
    then show ?thesis unfolding bi by (simp add: keepInErrorLog_def split: option.splits)
  qed
  then have "filter (keepInErrorLog c (map (\<lambda>block. validate H (block_at c block)) (chain c)))
               (zip (chain c) [0..<length (chain c)])
           = filter (\<lambda>p. ?Q (fst p)) (zip (chain c) [0..<length (chain c)])"
    by (simp cong: filter_cong)
  with map_fst_filter_zip [of "chain c" "[0..<length (chain c)]" ?Q]
  show ?thesis by (simp add: validateChain_def)
qed

lemma map_records_assign:
  assumes "\<And>b. g (f b) = g b"
  shows "map g (records (assign r f c)) = map g (records c)"
proof -
  have "g (block_at (assign r f c) q) = g (block_at c q)" for q
    by (simp add: block_at_assign assms)
  then show ?thesis by (simp add: records_def chain_assign)
qed

lemma allocated_assign: "allocated (assign r f c) = allocated c"
  by (simp add: allocated_def chain_assign length_objects_assign)

lemma heightInv_tamper:
  assumes "heightInv c" and "\<And>b. block.height (f b) = block.height b"
  shows "heightInv (tamper i f c)"
  using assms(1) map_records_assign[of block.height f "chain c ! i" c, OF assms(2)]
  by (simp add: heightInv_def tamper_def allocated_assign chain_assign height_assign)

lemma linkInv_tamper:
  assumes "linkInv c" and "\<And>b. hash (f b) = hash b"
    and "\<And>b. previousBlockHash (f b) = previousBlockHash b"
  shows "linkInv (tamper i f c)"
  using assms(1) map_records_assign[of hash f "chain c ! i" c, OF assms(2)]
    map_records_assign[of previousBlockHash f "chain c ! i" c, OF assms(3)]
  by (simp add: linkInv_def tamper_def map_tl map_butlast)

text \<open>
  Overwriting the payload and the time of any block of a ledger reached from the
  constructor leaves heights, hashes and back-links as they were, and nothing is reported.
\<close>

lemma tampered_payload_unreported:
  "validateChain H (tamper i (\<lambda>b. b\<lparr>body := d, time := t\<rparr>) (run H verify ops (Blockchain H ms))) = []"
  by (rule validateChain_linked)
     (simp_all add: heightInv_tamper linkInv_tamper heightInv_run heightInv_Blockchain
        linkInv_run linkInv_Blockchain allocated_Blockchain)

text \<open>
  On a ledger reached from the constructor by operations that hand over blocks with an
  empty hash slot, every block validates and the specification's rule reports nothing
  either.
\<close>

lemma validateChain_spec_untampered:
  assumes "list_all empty_slot ops"
  shows "validateChain_spec H (run H verify ops (Blockchain H ms)) = []"
proof -
  let ?c = "run H verify ops (Blockchain H ms)"
  have l: "linkInv ?c" by (simp add: linkInv_run linkInv_Blockchain allocated_Blockchain)
  have v: "list_all (validate H) (records ?c)"
    using assms by (simp add: valid_run valid_Blockchain allocated_Blockchain)
  have "\<not> corrupt_spec H ?c ri"
    if "ri \<in> set (zip (chain ?c) [0..<length (chain ?c)])" for ri
  proof -
    obtain r i where ri: "ri = (r, i)" by (cases ri)
    with that have idx: "i < length (chain ?c)" and blk: "r = chain ?c ! i"
      by (auto simp: set_zip)
    from v idx blk have ok: "validate H (block_at ?c r)"
      by (simp add: list_all_length records_def)
    show ?thesis
    proof (cases "Suc i < length (chain ?c)")
      case True
      with l blk have "previousBlockHash (block_at ?c (chain ?c ! Suc i)) = hash (block_at ?c r)"
        by (simp add: linkInv_nth)
      moreover from True have "at_index (chain ?c) (int i + 1) = Some (chain ?c ! Suc i)"
        by (simp add: at_index_def nat_add_distrib)
      ultimately show ?thesis by (simp add: corrupt_spec_def ri ok)
    next
      case False
      then have "at_index (chain ?c) (int i + 1) = None" by (simp add: at_index_def)
      then show ?thesis by (simp add: corrupt_spec_def ri ok)
    qed
  qed
  then have "filter (corrupt_spec H ?c) (zip (chain ?c) [0..<length (chain ?c)]) = []"
    by (simp add: filter_empty_conv)
  then show ?thesis by (simp add: validateChain_spec_def)
qed

subsection \<open>The concrete ledgers, evaluated\<close>

lemma ts0: "timestamp 1700000000000 = ''1700000000''"
  by (simp add: timestamp_def slice_0_minus3_def toString.simps digit_def)
lemma ts1: "timestamp 1700000060000 = ''1700000060''"
  by (simp add: timestamp_def slice_0_minus3_def toString.simps digit_def)
lemma ts2: "timestamp 1700000120000 = ''1700000120''"
  by (simp add: timestamp_def slice_0_minus3_def toString.simps digit_def)


lemma ledger0_eq: "ledger0 = \<lparr>objects = [\<lparr>hash = Some ''null,0,Genesis Block,1700000000,null'', height = 0,
   body = Literal ''Genesis Block'', time = ''1700000000'', previousBlockHash = None\<rparr>],
   chain = [0], height = 0\<rparr>"
  by (simp add: ledger0_def Blockchain_def initializeChain_def new_object_def addBlock_def
      assign_def block_at_def Let_def Block_def plain_digest_def ts0 toString.simps digit_def)

lemma ledger1_eq: "ledger1 = \<lparr>objects = [
  \<lparr>hash = Some ''null,0,Genesis Block,1700000000,null'', height = 0,
   body = Literal ''Genesis Block'', time = ''1700000000'', previousBlockHash = None\<rparr>,
  \<lparr>hash = Some ''null,1,foo,1700000060,null,0,Genesis Block,1700000000,null'', height = 1,
   body = Literal ''foo'', time = ''1700000060'',
   previousBlockHash = Some ''null,0,Genesis Block,1700000000,null''\<rparr>],
   chain = [0, 1], height = 1\<rparr>"
  by (simp add: ledger1_def ledger0_eq addNew_def new_object_def addBlock_def
      assign_def block_at_def Let_def Block_def plain_digest_def ts1 toString.simps digit_def)

lemma ledger2_eq: "ledger2 = \<lparr>objects = [
  \<lparr>hash = Some ''null,0,Genesis Block,1700000000,null'', height = 0,
   body = Literal ''Genesis Block'', time = ''1700000000'', previousBlockHash = None\<rparr>,
  \<lparr>hash = Some ''null,1,foo,1700000060,null,0,Genesis Block,1700000000,null'', height = 1,
   body = Literal ''foo'', time = ''1700000060'',
   previousBlockHash = Some ''null,0,Genesis Block,1700000000,null''\<rparr>,
  \<lparr>hash = Some ''null,2,bar,1700000120,null,1,foo,1700000060,null,0,Genesis Block,1700000000,null'', height = 2,
   body = Literal ''bar'', time = ''1700000120'',
   previousBlockHash = Some ''null,1,foo,1700000060,null,0,Genesis Block,1700000000,null''\<rparr>],
   chain = [0, 1, 2], height = 2\<rparr>"
  by (simp add: ledger2_def ledger0_eq run_def addNew_def new_object_def addBlock_def
      assign_def block_at_def Let_def Block_def plain_digest_def ts1 ts2 toString.simps digit_def)

subsection \<open>Tampering with the hash\<close>

lemma validate_hash_update:
  "validate H (b\<lparr>hash := d\<rparr>) = (d = Some (computeHash H b))"
  by (simp add: validate_def computeHash_def)

lemma distinct_chain:
  assumes "heightInv c"
  shows "distinct (chain c)"
proof -
  have "chain c ! i \<noteq> chain c ! j"
    if "i < length (chain c)" "j < length (chain c)" "i \<noteq> j" for i j
  proof
    assume "chain c ! i = chain c ! j"
    then have "block.height (block_at c (chain c ! i)) = block.height (block_at c (chain c ! j))"
      by simp
    with assms that show False by (simp add: heightInv_nth)
  qed
  then show ?thesis by (simp add: distinct_conv_nth)
qed

lemma filter_only:
  assumes "distinct xs" and "i < length xs" and "Q (xs ! i)"
    and "\<And>x. x \<in> set xs \<Longrightarrow> x \<noteq> xs ! i \<Longrightarrow> \<not> Q x"
  shows "filter Q xs = [xs ! i]"
proof -
  have xs: "xs = take i xs @ xs ! i # drop (Suc i) xs"
    using assms(2) by (rule id_take_nth_drop)
  with assms(1) have "distinct (take i xs @ xs ! i # drop (Suc i) xs)" by simp
  then have a: "xs ! i \<notin> set (take i xs)" and b: "xs ! i \<notin> set (drop (Suc i) xs)"
    by auto
  have "\<not> Q x" if "x \<in> set (take i xs)" for x
    using that a assms(4)[of x] in_set_takeD[of x i xs] by auto
  then have "filter Q (take i xs) = []"
    by (simp add: filter_empty_conv)
  moreover have "\<not> Q x" if "x \<in> set (drop (Suc i) xs)" for x
    using that b assms(4)[of x] in_set_dropD[of x "Suc i" xs] by auto
  then have "filter Q (drop (Suc i) xs) = []"
    by (simp add: filter_empty_conv)
  moreover have "filter Q xs = filter Q (take i xs) @ filter Q (xs ! i # drop (Suc i) xs)"
    by (subst xs) (simp only: filter_append)
  ultimately show ?thesis using assms(3) by simp
qed

text \<open>
  Overwriting the hash of a block that is not the last, on a ledger built by operations
  that hand over blocks with an empty hash slot, is reported: the result is that block.
\<close>

lemma hash_tampering_reported:
  assumes fresh: "list_all empty_slot ops"
    and i: "Suc i < length (chain (run H verify ops (Blockchain H ms)))"
    and d: "hash (records (run H verify ops (Blockchain H ms)) ! i) \<noteq> d"
  shows "validateChain H (tamper i (\<lambda>b. b\<lparr>hash := d\<rparr>) (run H verify ops (Blockchain H ms)))
     = [chain (run H verify ops (Blockchain H ms)) ! i]"
proof -
  define c where "c = run H verify ops (Blockchain H ms)"
  define r where "r = chain c ! i"
  define c' where "c' = assign r (\<lambda>b. b\<lparr>hash := d\<rparr>) c"
  define Q where "Q = (\<lambda>block. \<not> validate H (block_at c' block) \<and>
               (case at_index (chain c') (block.height (block_at c' block) + 1) of
                  None \<Rightarrow> False
                | Some nextBlock \<Rightarrow>
                    previousBlockHash (block_at c' nextBlock) \<noteq> hash (block_at c' block)))"
  have h: "heightInv c" by (simp add: c_def heightInv_run heightInv_Blockchain)
  then have al: "allocated c" by (simp add: heightInv_def)
  have l: "linkInv c" by (simp add: c_def linkInv_run linkInv_Blockchain allocated_Blockchain)
  have v: "list_all (validate H) (records c)"
    using fresh by (simp add: c_def valid_run valid_Blockchain allocated_Blockchain)
  from i have i2: "Suc i < length (chain c)" by (simp add: c_def)
  then have i1: "i < length (chain c)" by simp
  from d i1 have d': "hash (block_at c r) \<noteq> d" by (simp add: c_def r_def records_def)
  from h have dist: "distinct (chain c)" by (rule distinct_chain)
  from al i1 have rl: "r < length (objects c)" by (simp add: r_def allocated_nth)
  have same: "block_at c' q = block_at c q" if "q \<noteq> r" for q
    using that by (simp add: c'_def block_at_assign)
  have at_r: "block_at c' r = (block_at c r)\<lparr>hash := d\<rparr>"
    using rl by (simp add: c'_def block_at_assign)
  have ch: "chain c' = chain c" by (simp add: c'_def chain_assign)
  have others: "\<not> Q x" if "x \<in> set (chain c)" "x \<noteq> chain c ! i" for x
  proof -
    from that(2) have "block_at c' x = block_at c x" by (simp add: same r_def)
    moreover from v that(1) have "validate H (block_at c x)"
      by (simp add: list_all_iff records_def)
    ultimately show ?thesis by (simp add: Q_def)
  qed
  from v i1 have "validate H (block_at c r)" by (simp add: list_all_length records_def r_def)
  then have "hash (block_at c r) = Some (computeHash H (block_at c r))" by (simp add: validate_def)
  with d' have nv: "\<not> validate H (block_at c' r)" by (auto simp: at_r validate_hash_update)
  from h i1 have "block.height (block_at c r) = int i"
    by (simp add: r_def heightInv_nth)
  then have hb: "block.height (block_at c' r) = int i"
    by (simp add: at_r)
  from i2 have nx: "at_index (chain c') (int i + 1) = Some (chain c ! Suc i)"
    by (simp add: ch at_index_def nat_add_distrib)
  from dist i1 i2 have "chain c ! Suc i \<noteq> r" by (simp add: r_def nth_eq_iff_index_eq)
  then have "block_at c' (chain c ! Suc i) = block_at c (chain c ! Suc i)" by (rule same)
  moreover from l i2 have "previousBlockHash (block_at c (chain c ! Suc i)) = hash (block_at c r)"
    by (simp add: linkInv_nth r_def)
  ultimately have "previousBlockHash (block_at c' (chain c ! Suc i)) \<noteq> hash (block_at c' r)"
    using d' by (simp add: at_r)
  with nv hb nx have "Q (chain c ! i)" by (simp add: Q_def r_def)
  with dist i1 have "filter Q (chain c) = [chain c ! i]"
    by (rule filter_only) (rule others)
  then have "validateChain H c' = [chain c ! i]"
    by (simp add: validateChain_filter Q_def ch)
  then show ?thesis by (simp add: c_def c'_def r_def tamper_def)
qed

text \<open>
  The scenario of the repository's test: the hash of the block at position 1 is
  overwritten, and \<open>validateChain\<close> returns that block.
\<close>

lemma tampered_hash_reported:
  "validateChain plain_digest (tamper 1 (\<lambda>b. b\<lparr>hash := Some ''0000''\<rparr>) ledger2)
    = [chain (tamper 1 (\<lambda>b. b\<lparr>hash := Some ''0000''\<rparr>) ledger2) ! 1]"
  by (simp add: tamper_def assign_def block_at_def ledger2_eq validate_def computeHash_def
      plain_digest_def validateChain_def keepInErrorLog_def at_index_def toString.simps
      digit_def upt_rec)

subsection \<open>Appending an object that is not in the chain\<close>

lemma records_addBlock_fresh:
  assumes "r < length (objects c)" and "r \<notin> set (chain c)"
  shows "records (snd (addBlock H ms r c)) = records c @ [stamped H ms c (block_at c r)]"
proof -
  have "r \<noteq> x" if "x \<in> set (chain c)" for x
    using that assms(2) by auto
  then have "map ((!) ((objects c)[r := b])) (chain c) = map ((!) (objects c)) (chain c)" for b
    by simp
  with assms(1) show ?thesis
    by (simp add: addBlock_eq records_def block_at_def [abs_def])
qed

lemma allocated_addBlock:
  assumes "allocated c" and "r < length (objects c)"
  shows "allocated (snd (addBlock H ms r c))"
  using assms by (simp add: addBlock_eq allocated_def)

lemma heightInv_addBlock_fresh:
  assumes "heightInv c" and "r < length (objects c)" and "r \<notin> set (chain c)"
  shows "heightInv (snd (addBlock H ms r c))"
proof -
  from assms(1) have "allocated c" by (simp add: heightInv_def)
  with assms show ?thesis
    by (simp add: heightInv_def allocated_addBlock records_addBlock_fresh chain_addBlock
        height_addBlock block_height_stamped)
qed

lemma run_as_calls: "run H verify ops c = run_calls H verify (map Fresh ops) c"
  unfolding run_def run_calls_def by (induction ops arbitrary: c) simp_all

lemma height_run_Blockchain: "height (run H verify ops (Blockchain H ms)) \<noteq> - 1"
  by (simp only: run_as_calls height_run_calls_Blockchain not_False_eq_True)

section \<open>The claims\<close>

text \<open>
  C1. Chain validation is claimed to report a record when its self-validation fails, and
  otherwise when its successor's back-link differs from its hash. The filter of
  \<open>validateChain\<close> does neither by itself: it drops every record that validates and keeps
  one that does not validate only when the link to the successor is broken as well. In
  the ledger below the back-link of the last block was overwritten: the block before it
  validates but its successor no longer points at it, and the last block no longer
  validates. The specification's rule reports both, \<open>validateChain\<close> reports nothing.
\<close>

theorem validateChain_drops_corrupt_records:
  "validateChain_spec plain_digest (tamper 2 (\<lambda>b. b\<lparr>previousBlockHash := Some ''0000''\<rparr>) ledger2) =
     [chain (tamper 2 (\<lambda>b. b\<lparr>previousBlockHash := Some ''0000''\<rparr>) ledger2) ! 1,
      chain (tamper 2 (\<lambda>b. b\<lparr>previousBlockHash := Some ''0000''\<rparr>) ledger2) ! 2] \<and>
   validateChain plain_digest (tamper 2 (\<lambda>b. b\<lparr>previousBlockHash := Some ''0000''\<rparr>) ledger2) = []"
  by (simp add: tamper_def assign_def block_at_def ledger2_eq validate_def computeHash_def
      plain_digest_def validateChain_def keepInErrorLog_def validateChain_spec_def
      corrupt_spec_def at_index_def toString.simps digit_def upt_rec)

text \<open>
  C2. Tampering with any field of a record that is not the last is claimed to make the
  record appear in the result of \<open>validateChain\<close>. In the ledger below the payload of
  the block at position 1 was overwritten. The block no longer validates, the
  specification's rule reports it, and \<open>validateChain\<close> returns the empty list, because
  the hash stored in the block still matches the back-link of its successor.
\<close>

theorem validateChain_misses_tampered_payload:
  "\<not> validate plain_digest (records (tamper 1 (\<lambda>b. b\<lparr>body := Literal ''baz''\<rparr>) ledger2) ! 1) \<and>
   validateChain_spec plain_digest (tamper 1 (\<lambda>b. b\<lparr>body := Literal ''baz''\<rparr>) ledger2) =
     [chain (tamper 1 (\<lambda>b. b\<lparr>body := Literal ''baz''\<rparr>) ledger2) ! 1] \<and>
   validateChain plain_digest (tamper 1 (\<lambda>b. b\<lparr>body := Literal ''baz''\<rparr>) ledger2) = []"
  by (simp add: tamper_def assign_def block_at_def records_def ledger2_eq validate_def
      computeHash_def plain_digest_def validateChain_def keepInErrorLog_def
      validateChain_spec_def corrupt_spec_def at_index_def toString.simps digit_def upt_rec)

text \<open>
  C3. When the time parsed from the challenge lies more than 300 seconds before the
  current time, \<open>submitStar\<close> rejects with the expiry error and leaves the state as it
  was. The verifier is a parameter of the statement: the result is the same for every
  verifier, so it does not depend on what the verifier would answer.
\<close>

theorem submitStar_expired:
  assumes "messageTime message = Some t" and "300 < int (ms div 1000) - t"
  shows "submitStar H verify ms ms' address message signature star c = (Inl ExpiredChallenge, c)"
  using assms
  by (simp add: submitStar_def toNumber_timestamp elapsed_exceeds_def VALIDATION_TIMEOUT_SECONDS_def)

theorem submitStar_expired_witness:
  "messageTime ''1A1z:1700000000:starRegistry'' = Some 1700000000 \<and>
   300 < int (1700000400000 div 1000) - 1700000000 \<and>
   plain_verify ''1A1z:1700000000:starRegistry'' ''1A1z'' ''1A1z|1A1z:1700000000:starRegistry'' \<and>
   submitStar plain_digest plain_verify 1700000400000 1700000400001 ''1A1z''
     ''1A1z:1700000000:starRegistry'' ''1A1z|1A1z:1700000000:starRegistry'' ''star'' ledger0
     = (Inl ExpiredChallenge, ledger0)"
proof -
  have t: "messageTime ''1A1z:1700000000:starRegistry'' = Some 1700000000"
    by (simp add: messageTime_def at_index_def parseInt_def isWhiteSpace_def isDigit_def
        digitsValue_def digitValue_def)
  have e: "300 < int (1700000400000 div 1000) - 1700000000" by simp
  have v: "plain_verify ''1A1z:1700000000:starRegistry'' ''1A1z'' ''1A1z|1A1z:1700000000:starRegistry''"
    by (simp add: plain_verify_def)
  from t e v submitStar_expired [OF t e, where H = plain_digest and verify = plain_verify
      and ms' = 1700000400001 and address = "''1A1z''"
      and signature = "''1A1z|1A1z:1700000000:starRegistry''" and star = "''star''" and c = ledger0]
  show ?thesis by simp
qed

text \<open>
  C4. When the time parsed from the challenge is within the window of 300 seconds and the
  verifier rejects the signature, \<open>submitStar\<close> rejects with the signature error and the
  state (the chain, the height and every block object) is returned unchanged.
\<close>

theorem submitStar_invalid_signature:
  assumes "messageTime message = Some t" and "int (ms div 1000) - t \<le> 300"
    and "\<not> verify message address signature"
  shows "submitStar H verify ms ms' address message signature star c = (Inl InvalidSignature, c)"
  using assms
  by (simp add: submitStar_def toNumber_timestamp elapsed_exceeds_def VALIDATION_TIMEOUT_SECONDS_def)

theorem submitStar_invalid_signature_witness:
  "messageTime ''1A1z:1700000000:starRegistry'' = Some 1700000000 \<and>
   int (1700000200000 div 1000) - 1700000000 \<le> 300 \<and>
   \<not> plain_verify ''1A1z:1700000000:starRegistry'' ''1A1z'' ''forged'' \<and>
   submitStar plain_digest plain_verify 1700000200000 1700000200001 ''1A1z''
     ''1A1z:1700000000:starRegistry'' ''forged'' ''star'' ledger0
     = (Inl InvalidSignature, ledger0)"
proof -
  have t: "messageTime ''1A1z:1700000000:starRegistry'' = Some 1700000000"
    by (simp add: messageTime_def at_index_def parseInt_def isWhiteSpace_def isDigit_def
        digitsValue_def digitValue_def)
  have e: "int (1700000200000 div 1000) - 1700000000 \<le> 300" by simp
  have v: "\<not> plain_verify ''1A1z:1700000000:starRegistry'' ''1A1z'' ''forged''"
    by (simp add: plain_verify_def)
  from t e v submitStar_invalid_signature [where verify = plain_verify
      and message = "''1A1z:1700000000:starRegistry''" and address = "''1A1z''"
      and signature = "''forged''" and t = 1700000000 and ms = 1700000200000
      and H = plain_digest and ms' = 1700000200001 and star = "''star''" and c = ledger0]
  show ?thesis by simp
qed

text \<open>
  C5. The claim says that the hash computed by \<open>_addBlock\<close> depends on the four fields
  height, time, previous hash and payload alone, and that no later operation computes it
  again. \<open>_addBlock\<close> digests the whole object, the hash property included, and writes
  into the object it is given. In the ledger with the blocks genesis and foo, handing
  the block at position 1 to \<open>_addBlock\<close> once more replaces the hash stored in that
  block; and the new hash differs from the one a newly constructed block gets in the
  same state at the same time, although both blocks end with the same height, time,
  previous hash and payload.
\<close>

theorem addBlock_again_rehashes:
  "hash (block_at (exec_call plain_digest plain_verify ledger1 (AddAgain 1700000120000 1)) 1)
     \<noteq> hash (block_at ledger1 1) \<and>
   canonical
     (block.height (block_at (exec_call plain_digest plain_verify ledger1 (AddAgain 1700000120000 1)) 1))
     (time (block_at (exec_call plain_digest plain_verify ledger1 (AddAgain 1700000120000 1)) 1))
     (previousBlockHash (block_at (exec_call plain_digest plain_verify ledger1 (AddAgain 1700000120000 1)) 1))
     (body (block_at (exec_call plain_digest plain_verify ledger1 (AddAgain 1700000120000 1)) 1))
   = canonical
     (block.height (block_at (addNew plain_digest 1700000120000 (Block (Literal ''foo'')) ledger1) 2))
     (time (block_at (addNew plain_digest 1700000120000 (Block (Literal ''foo'')) ledger1) 2))
     (previousBlockHash (block_at (addNew plain_digest 1700000120000 (Block (Literal ''foo'')) ledger1) 2))
     (body (block_at (addNew plain_digest 1700000120000 (Block (Literal ''foo'')) ledger1) 2)) \<and>
   hash (block_at (exec_call plain_digest plain_verify ledger1 (AddAgain 1700000120000 1)) 1)
     \<noteq> hash (block_at (addNew plain_digest 1700000120000 (Block (Literal ''foo'')) ledger1) 2)"
  by (simp add: ledger1_eq addNew_def new_object_def addBlock_def assign_def block_at_def
      Let_def Block_def plain_digest_def canonical_def ts2 toString.simps digit_def)

text \<open>
  C5, as amended. When \<open>_addBlock\<close> is handed a block object whose hash slot is empty,
  as the constructor leaves it, the hash it stores is the digest of the height, time,
  previous hash and payload of the block as stored, the hash slot being empty in what is
  digested; so the block validates. The operations that append a newly constructed
  object, in any number, change no object of the store and no entry of the chain.
\<close>

theorem addBlock_hash_of_four_fields:
  assumes "allocated c" and "r < length (objects c)" and "hash (block_at c r) = None"
  shows "hash (block_at (snd (addBlock H ms r c)) r) =
           Some (H (canonical (block.height (block_at (snd (addBlock H ms r c)) r))
                              (time (block_at (snd (addBlock H ms r c)) r))
                              (previousBlockHash (block_at (snd (addBlock H ms r c)) r))
                              (body (block_at (snd (addBlock H ms r c)) r)))) \<and>
         validate H (block_at (snd (addBlock H ms r c)) r) \<and>
         take (length (objects (snd (addBlock H ms r c))))
              (objects (run H verify ops (snd (addBlock H ms r c))))
           = objects (snd (addBlock H ms r c)) \<and>
         take (length (chain (snd (addBlock H ms r c))))
              (chain (run H verify ops (snd (addBlock H ms r c))))
           = chain (snd (addBlock H ms r c))"
proof -
  let ?c' = "snd (addBlock H ms r c)"
  obtain h hg b t p where
    b: "block_at c r = \<lparr>hash = h, height = hg, body = b, time = t, previousBlockHash = p\<rparr>"
    by (cases "block_at c r") auto
  from assms(2) have at: "block_at ?c' r = stamped H ms c (block_at c r)"
    by (simp add: addBlock_eq block_at_def)
  from assms(3) b have "hash (block_at ?c' r) =
      Some (H (canonical (block.height (block_at ?c' r)) (time (block_at ?c' r))
                         (previousBlockHash (block_at ?c' r)) (body (block_at ?c' r))))"
    by (simp add: at stamped_def Let_def canonical_def)
  moreover from assms(3) have "validate H (block_at ?c' r)"
    by (simp add: at validate_stamped)
  moreover from assms(1,2) have "allocated ?c'" by (rule allocated_addBlock)
  ultimately show ?thesis using prefix_run[of ?c' H verify ops] by simp
qed

theorem addBlock_hash_of_four_fields_witness:
  "allocated (snd (new_object (Block (Literal ''foo'')) ledger0)) \<and>
   1 < length (objects (snd (new_object (Block (Literal ''foo'')) ledger0))) \<and>
   hash (block_at (snd (new_object (Block (Literal ''foo'')) ledger0)) 1) = None \<and>
   hash (block_at ledger1 1) =
     Some (plain_digest (canonical 1 ''1700000060''
             (Some ''null,0,Genesis Block,1700000000,null'') (Literal ''foo''))) \<and>
   validate plain_digest (block_at ledger1 1) \<and>
   take 2 (objects ledger2) = objects ledger1 \<and>
   take 2 (chain ledger2) = chain ledger1"
proof -
  let ?c = "snd (new_object (Block (Literal ''foo'')) ledger0)"
  have a: "allocated ?c" by (simp add: new_object_def ledger0_eq allocated_def)
  have r: "1 < length (objects ?c)" by (simp add: new_object_def ledger0_eq)
  have h: "hash (block_at ?c 1) = None"
    by (simp add: new_object_def ledger0_eq block_at_def Block_def)
  have l1: "snd (addBlock plain_digest 1700000060000 1 ?c) = ledger1"
    by (simp add: ledger1_def addNew_def new_object_def ledger0_eq)
  have l2: "run plain_digest plain_verify [AddBlock 1700000120000 (Block (Literal ''bar''))] ledger1
      = ledger2"
    by (simp add: ledger2_def ledger1_def run_def)
  from a r h addBlock_hash_of_four_fields [OF a r h, where H = plain_digest
      and ms = 1700000060000 and verify = plain_verify
      and ops = "[AddBlock 1700000120000 (Block (Literal ''bar''))]"]
  show ?thesis
    by (simp only: l1 l2) (simp add: ledger1_eq block_at_def numeral_2_eq_2)
qed

text \<open>
  C6. The constructor calls \<open>initializeChain\<close> once. However many calls follow, the
  chain holds exactly one block, of height 0 and with the genesis payload, and the state
  is the one the constructor returned. A second call directly after a first changes
  nothing on any state, and a call changes nothing on a state reached from the
  constructor by any operations, also by calls of \<open>_addBlock\<close> with a block of the chain.
\<close>

theorem initializeChain_idempotent:
  "map block.height (records (foldl (\<lambda>c ms'. initializeChain H ms' c) (Blockchain H ms) mss)) = [0] \<and>
   map body (records (foldl (\<lambda>c ms'. initializeChain H ms' c) (Blockchain H ms) mss))
     = [Literal ''Genesis Block''] \<and>
   foldl (\<lambda>c ms'. initializeChain H ms' c) (Blockchain H ms) mss = Blockchain H ms \<and>
   initializeChain H ms2 (initializeChain H ms1 c) = initializeChain H ms1 c \<and>
   initializeChain H ms1 (run H verify ops (Blockchain H ms)) = run H verify ops (Blockchain H ms) \<and>
   initializeChain H ms1 (run_calls H verify calls (Blockchain H ms))
     = run_calls H verify calls (Blockchain H ms)"
proof -
  have "foldl (\<lambda>c ms'. initializeChain H ms' c) (Blockchain H ms) mss = Blockchain H ms"
    by (simp add: fold_initializeChain height_Blockchain)
  moreover have "map block.height (records (Blockchain H ms)) = [0]"
    by (simp add: records_Blockchain block_height_stamped)
  moreover have "map body (records (Blockchain H ms)) = [Literal ''Genesis Block'']"
    by (simp add: records_Blockchain body_stamped Block_def)
  moreover have "initializeChain H ms1 (run H verify ops (Blockchain H ms))
      = run H verify ops (Blockchain H ms)"
    by (simp add: initializeChain_noop height_run_Blockchain)
  moreover have "initializeChain H ms1 (run_calls H verify calls (Blockchain H ms))
      = run_calls H verify calls (Blockchain H ms)"
    by (simp add: initializeChain_noop height_run_calls_Blockchain)
  ultimately show ?thesis by (simp add: initializeChain_twice)
qed

text \<open>
  C7. The claim says that after any appends the block at position \<open>i\<close> has height \<open>i\<close>
  and that every operation keeps this. \<open>_addBlock\<close> writes the new height into the object
  it is given and pushes that object: handing it the block at position 1 of the ledger
  with the blocks genesis and foo gives a chain whose positions 1 and 2 hold the same
  object, of height 2.
\<close>

theorem addBlock_again_breaks_heights:
  "heightInv ledger1 \<and>
   \<not> heightInv (exec_call plain_digest plain_verify ledger1 (AddAgain 1700000120000 1)) \<and>
   chain (exec_call plain_digest plain_verify ledger1 (AddAgain 1700000120000 1)) = [0, 1, 1] \<and>
   map block.height (records (exec_call plain_digest plain_verify ledger1 (AddAgain 1700000120000 1)))
     = [0, 2, 2]"
  by (simp add: ledger1_eq heightInv_def allocated_def records_def addBlock_def assign_def
      block_at_def Let_def upt_rec)

text \<open>
  C7, as amended. On the state reached from the constructor by any list of operations
  that append a newly constructed object the block at position \<open>i\<close> has height \<open>i\<close> and
  the counter is the length of the chain minus one; each of these operations keeps this
  invariant, and so does \<open>_addBlock\<close> with an object that is not in the chain. The counter
  is the length of the chain minus one after any calls, also after those of \<open>_addBlock\<close>
  with a block of the chain.
\<close>

theorem height_invariant:
  "heightInv (run H verify ops (Blockchain H ms)) \<and>
   (heightInv c \<longrightarrow> heightInv (exec H verify c op)) \<and>
   (heightInv c \<and> r < length (objects c) \<and> r \<notin> set (chain c)
      \<longrightarrow> heightInv (snd (addBlock H ms' r c))) \<and>
   lengthInv (run_calls H verify calls (Blockchain H ms)) \<and>
   (lengthInv c \<longrightarrow> lengthInv (exec_call H verify c call))"
  by (simp add: heightInv_run heightInv_Blockchain heightInv_exec heightInv_addBlock_fresh
      lengthInv_run_calls lengthInv_Blockchain lengthInv_exec_call)

theorem height_invariant_witness:
  "heightInv ledger0 \<and>
   heightInv (exec plain_digest plain_verify ledger0 (AddBlock 1700000060000 (Block (Literal ''foo'')))) \<and>
   heightInv (snd (new_object (Block (Literal ''foo'')) ledger0)) \<and>
   1 < length (objects (snd (new_object (Block (Literal ''foo'')) ledger0))) \<and>
   1 \<notin> set (chain (snd (new_object (Block (Literal ''foo'')) ledger0))) \<and>
   heightInv (snd (addBlock plain_digest 1700000060000 1
                (snd (new_object (Block (Literal ''foo'')) ledger0)))) \<and>
   lengthInv ledger1 \<and>
   lengthInv (exec_call plain_digest plain_verify ledger1 (AddAgain 1700000120000 1))"
proof -
  let ?c = "snd (new_object (Block (Literal ''foo'')) ledger0)"
  have h: "heightInv ledger0"
    by (simp add: ledger0_eq heightInv_def allocated_def records_def block_at_def)
  have h': "heightInv ?c \<and> 1 < length (objects ?c) \<and> 1 \<notin> set (chain ?c)"
    by (simp add: new_object_def ledger0_eq heightInv_def allocated_def records_def block_at_def)
  have l: "lengthInv ledger1" by (simp add: ledger1_eq lengthInv_def)
  from h height_invariant [where c = ledger0 and H = plain_digest and verify = plain_verify
      and op = "AddBlock 1700000060000 (Block (Literal ''foo''))"]
  have 1: "heightInv (exec plain_digest plain_verify ledger0
      (AddBlock 1700000060000 (Block (Literal ''foo''))))"
    by simp
  from h' height_invariant [where c = ?c and r = 1 and H = plain_digest and ms' = 1700000060000]
  have 2: "heightInv (snd (addBlock plain_digest 1700000060000 1 ?c))"
    by simp
  from l height_invariant [where c = ledger1 and H = plain_digest and verify = plain_verify
      and call = "AddAgain 1700000120000 1"]
  have 3: "lengthInv (exec_call plain_digest plain_verify ledger1 (AddAgain 1700000120000 1))"
    by simp
  from h h' l 1 2 3 show ?thesis by simp
qed

text \<open>
  C8. On the state reached from the constructor by any list of operations that append
  a newly constructed block, none of which is followed by tampering, \<open>validateChain\<close>
  returns the empty list.
\<close>

theorem validateChain_untampered:
  "validateChain H (run H verify ops (Blockchain H ms)) = []"
  by (rule validateChain_linked)
     (simp_all add: heightInv_run heightInv_Blockchain linkInv_run linkInv_Blockchain
        allocated_Blockchain)

text \<open>
  C9. \<open>getStarsByWalletAddress\<close> returns what the specification's scan returns: the
  claims of the records after the first whose owner is the address, in chain order. In
  terms of positions: the data of the blocks at the positions from 1 on whose owner is
  the address, by increasing position.
\<close>

theorem getStarsByWalletAddress_exact:
  "getStarsByWalletAddress address c = getClaimsByOwner_spec address (records c) \<and>
   getStarsByWalletAddress address c =
     [getBData (block_at c (chain c ! i)). i \<leftarrow> [1..<length (chain c)],
        owner (getBData (block_at c (chain c ! i))) = Some address]"
proof -
  have "map (\<lambda>block. getBData (block_at c block)) (drop 1 (chain c))
      = map (\<lambda>i. getBData (block_at c (chain c ! i))) [1..<length (chain c)]"
    by (subst drop1_nth) simp
  then have "getStarsByWalletAddress address c =
     [getBData (block_at c (chain c ! i)). i \<leftarrow> [1..<length (chain c)],
        owner (getBData (block_at c (chain c ! i))) = Some address]"
    by (simp only: getStarsByWalletAddress_def Let_def filter_map_comprehension)
  moreover have "map (\<lambda>block. getBData (block_at c block)) (drop 1 (chain c))
      = map getBData (drop 1 (records c))"
    by (simp add: records_def drop_map)
  then have "getStarsByWalletAddress address c = getClaimsByOwner_spec address (records c)"
    by (cases "records c")
       (simp_all add: getStarsByWalletAddress_def getClaimsByOwner_spec_def claimsOf_filter)
  ultimately show ?thesis by simp
qed

text \<open>
  C10. When the second field of the challenge is missing or does not parse, the parsed
  time is \<open>NaN\<close>, the comparison with the window is false and \<open>submitStar\<close> never rejects
  with the expiry error: the outcome is decided by the verifier alone, whatever the
  current time.
\<close>

theorem submitStar_unparsed_time:
  assumes "messageTime message = None"
  shows "fst (submitStar H verify ms ms' address message signature star c) \<noteq> Inl ExpiredChallenge \<and>
     submitStar H verify ms ms' address message signature star c =
       (if \<not> verify message address signature then (Inl InvalidSignature, c)
        else (Inr (length (objects c)), addNew H ms' (Block (Claim address star)) c))"
  using assms
  by (simp add: submitStar_def toNumber_timestamp elapsed_exceeds_def split_beta Let_def
      addNew_def new_object_def fst_addBlock)

theorem submitStar_unparsed_time_witness:
  "requestMessageOwnershipVerification 1700000000123 ''ab:cd'' = ''ab:cd:1700000000:starRegistry'' \<and>
   messageTime ''ab:cd:1700000000:starRegistry'' = None \<and>
   fst (submitStar plain_digest plain_verify 1700009999000 1700009999001 ''ab:cd''
          ''ab:cd:1700000000:starRegistry'' ''forged'' ''star'' ledger0) = Inl InvalidSignature"
proof -
  have r: "requestMessageOwnershipVerification 1700000000123 ''ab:cd'' = ''ab:cd:1700000000:starRegistry''"
    by (simp add: requestMessageOwnershipVerification_def timestamp_def slice_0_minus3_def
        toString.simps digit_def)
  have t: "messageTime ''ab:cd:1700000000:starRegistry'' = None"
    by (simp add: messageTime_def at_index_def parseInt_def isWhiteSpace_def isDigit_def)
  from r t submitStar_unparsed_time [OF t, where H = plain_digest and verify = plain_verify
      and ms = 1700009999000 and ms' = 1700009999001 and address = "''ab:cd''"
      and signature = "''forged''" and star = "''star''" and c = ledger0]
  show ?thesis by (simp add: plain_verify_def)
qed

end
